theory Spec2Isabelle
  imports Main "HOL-Library.Word"
begin

unbundle bit_operations_syntax

section \<open>Go values used by the analysis and cache core\<close>

text \<open>
  A Go slice is either \<open>nil\<close> or a (possibly empty) sequence; \<open>len\<close> and \<open>range\<close>
  treat both alike, \<open>== nil\<close> does not.  Timestamps (\<open>time.Time\<close>) and durations are
  integers in nanoseconds; the zero \<open>time.Time\<close> is \<open>0\<close>.  Every \<open>time.Now()\<close> of one
  top-level call reads the same clock value, which the caller passes in.
\<close>

datatype 'a slice = NilSlice | Slice "'a list"

fun elems :: "'a slice \<Rightarrow> 'a list" where
  "elems NilSlice = []"
| "elems (Slice xs) = xs"

type_synonym time = int

subsection \<open>package strings\<close>

definition HasPrefix :: "string \<Rightarrow> string \<Rightarrow> bool" where
  "HasPrefix s p = (take (length p) s = p)"

definition HasSuffix :: "string \<Rightarrow> string \<Rightarrow> bool" where
  "HasSuffix s p = (length p \<le> length s \<and> drop (length s - length p) s = p)"

definition TrimPrefix :: "string \<Rightarrow> string \<Rightarrow> string" where
  "TrimPrefix s p = (if HasPrefix s p then drop (length p) s else s)"

definition TrimSuffix :: "string \<Rightarrow> string \<Rightarrow> string" where
  "TrimSuffix s p = (if HasSuffix s p then take (length s - length p) s else s)"

text \<open>White space as \<open>strings.TrimSpace\<close> sees it in ASCII text: tab, line feed,
  vertical tab, form feed, carriage return and space.\<close>

definition isSpace :: "char \<Rightarrow> bool" where
  "isSpace c = (c = CHR 0x09 \<or> c = CHR 0x0A \<or> c = CHR 0x0B \<or> c = CHR 0x0C
                \<or> c = CHR 0x0D \<or> c = CHR '' '')"

definition TrimSpace :: "string \<Rightarrow> string" where
  "TrimSpace s = rev (dropWhile isSpace (rev (dropWhile isSpace s)))"

text \<open>\<open>strings.Split(s, sep)\<close> for a one-byte separator: the pieces between the
  separators, empty pieces included; never the empty list.\<close>

fun Split :: "string \<Rightarrow> char \<Rightarrow> string list" where
  "Split [] sep = [[]]"
| "Split (c # cs) sep =
     (if c = sep then [] # Split cs sep
      else (case Split cs sep of
              [] \<Rightarrow> [[c]]
            | w # ws \<Rightarrow> (c # w) # ws))"

fun Contains :: "string \<Rightarrow> string \<Rightarrow> bool" where
  "Contains [] sub = (sub = [])"
| "Contains (c # cs) sub = (if HasPrefix (c # cs) sub then True else Contains cs sub)"

subsection \<open>models.Issue\<close>

type_synonym IssueType = "16 word"
type_synonym SeverityLevel = "8 word"

record Position =
  Filename :: string
  Offset :: int
  PosLine :: int
  PosColumn :: int

record Issue =
  ID :: string
  File :: string
  Line :: int
  Column :: int
  Position :: Position
  Type :: IssueType
  Severity :: SeverityLevel
  Message :: string
  Suggestion :: string
  Code :: string
  CanBeFixed :: bool
  FixedAt :: time
  CreatedAt :: time
  UpdatedAt :: time
  IgnoredAt :: time
  IgnoreType :: IssueType
  WhyBad :: string

text \<open>A \<open>*models.Issue\<close> held in a diagnostic slice: \<open>None\<close> is the nil pointer.\<close>

type_synonym issue_ptr = "Issue option"

subsection \<open>The parsed file\<close>

text \<open>
  An \<open>*ast.File\<close> as the core reads it: the syntax nodes that \<open>ast.Inspect\<close> visits,
  each with its \<open>Pos()\<close>, as a tree whose root is the file node itself; and the comment
  groups of \<open>file.Comments\<close>.  A \<open>*token.FileSet\<close> is used only through
  \<open>fset.Position(pos).Line\<close>, so it is the map from positions to lines.
\<close>

datatype node = Node int "node list"

record Comment =
  Slash :: int
  Text :: string

record File =
  Root :: node
  Comments :: "Comment list list"

type_synonym FileSet = "int \<Rightarrow> int"

section \<open>cache: the disk store (file cache)\<close>

text \<open>
  The records of the disk store.  A stored diagnostic list holds the diagnostics
  themselves: the store dereferences every element (\<open>updateStats\<close>), so its lists have
  no nil element.  The lock \<open>mu\<close> and the goroutines are not part of this sequential
  model.  The cache file on disk is the pair \<open>fsWritable\<close> (whether writing the
  temporary file and renaming it succeeds) and \<open>fsFile\<close> (the document last written);
  \<open>json.Marshal\<close> does not fail on these records.
\<close>

datatype error = NotInCache string | WriteFailed | HashFailed | OpenFailed

record FileRecord =
  Path :: string
  Hash :: string
  LastAnalyzed :: time
  Issues :: "Issue list"
  Ignored :: "string list"

record IgnoredRule =
  FilePattern :: string
  RuleTypes :: "string list"

record CacheStats =
  TotalFiles :: int
  TotalIssues :: int
  IgnoredIssues :: int
  FixedIssues :: int
  LastFullScan :: time
  CacheHits :: int
  CacheMisses :: int

record CacheData =
  Version :: string
  Files :: "FileRecord list"
  IgnoredRules :: "IgnoredRule list"
  Stats :: CacheStats
  LastUpdated :: time

record Entry =
  EntryHash :: string
  EntryIssues :: "Issue list"

record FileCache =
  baseDir :: string
  cacheDir :: string
  data :: CacheData
  fsWritable :: bool
  fsFile :: "CacheData option"

definition saveUnsafe :: "FileCache \<Rightarrow> time \<Rightarrow> error option \<times> FileCache" where
  "saveUnsafe fc now =
     (let d = (data fc)\<lparr>LastUpdated := now\<rparr>;
          fc' = fc\<lparr>data := d\<rparr>
      in if fsWritable fc then (None, fc'\<lparr>fsFile := Some d\<rparr>) else (Some WriteFailed, fc'))"

definition countFixed :: "Issue list \<Rightarrow> int" where
  "countFixed is = int (length (filter (\<lambda>i. FixedAt i \<noteq> 0) is))"

definition updateStats :: "FileCache \<Rightarrow> FileCache" where
  "updateStats fc =
     (let old = Stats (data fc);
          stats = fold (\<lambda>r s. s\<lparr>TotalFiles := TotalFiles s + 1,
                                  TotalIssues := TotalIssues s + int (length (Issues r)),
                                  IgnoredIssues := IgnoredIssues s + int (length (Ignored r)),
                                  FixedIssues := FixedIssues s + countFixed (Issues r)\<rparr>)
                    (Files (data fc))
                    \<lparr>TotalFiles = 0, TotalIssues = 0, IgnoredIssues = 0, FixedIssues = 0,
                     LastFullScan = LastFullScan old, CacheHits = CacheHits old,
                     CacheMisses = CacheMisses old\<rparr>
      in fc\<lparr>data := (data fc)\<lparr>Stats := stats\<rparr>\<rparr>)"

text \<open>The first record of a path, and the list without it: the two halves of the
  loop \<open>for i, r := range Files { if r.Path == key { ...; break } }\<close>.\<close>

fun findRecord :: "string \<Rightarrow> FileRecord list \<Rightarrow> FileRecord option" where
  "findRecord p [] = None"
| "findRecord p (r # rs) = (if Path r = p then Some r else findRecord p rs)"

fun removeRecord :: "string \<Rightarrow> FileRecord list \<Rightarrow> FileRecord list" where
  "removeRecord p [] = []"
| "removeRecord p (r # rs) = (if Path r = p then rs else r # removeRecord p rs)"

text \<open>An element of the \<open>[]interface{}\<close> handed to \<open>SaveFileRecord\<close>: a diagnostic, or
  any other value, which \<open>convertIssues\<close> replaces by a generic diagnostic whose ID is
  \<open>generateIssueID\<close> of the value (a digest of its address: carried here as given).\<close>

datatype item = AnIssue Issue | Other string

fun convertIssues :: "item list \<Rightarrow> Issue list" where
  "convertIssues [] = []"
| "convertIssues (AnIssue i # rest) = i # convertIssues rest"
| "convertIssues (Other gid # rest) =
     \<lparr>ID = gid, File = [], Line = 0, Column = 0,
      Position = \<lparr>Filename = [], Offset = 0, PosLine = 0, PosColumn = 0\<rparr>,
      Type = 229, Severity = 1, Message = ''cached issue'', Suggestion = [], Code = [],
      CanBeFixed = False, FixedAt = 0, CreatedAt = 0, UpdatedAt = 0, IgnoredAt = 0,
      IgnoreType = 0, WhyBad = []\<rparr> # convertIssues rest"

text \<open>\<open>SaveFileRecord\<close>: \<open>hashed\<close> is what \<open>CalculateFileHash(filePath)\<close> returns (it
  reads the file).\<close>

definition SaveFileRecord ::
  "FileCache \<Rightarrow> string \<Rightarrow> item list \<Rightarrow> error + string \<Rightarrow> time \<Rightarrow> error option \<times> FileCache" where
  "SaveFileRecord fc filePath issues hashed now =
     (case hashed of
        Inl err \<Rightarrow> (Some err, fc)
      | Inr hash \<Rightarrow>
          (let files = Files (data fc);
               oldIgnored = (case findRecord filePath files of
                               None \<Rightarrow> [] | Some existing \<Rightarrow> Ignored existing);
               record = \<lparr>Path = filePath, Hash = hash, LastAnalyzed = now,
                         Issues = convertIssues issues, Ignored = oldIgnored\<rparr>;
               fc1 = fc\<lparr>data := (data fc)\<lparr>Files := removeRecord filePath files @ [record]\<rparr>\<rparr>
           in saveUnsafe (updateStats fc1) now))"

definition GetFileRecord :: "FileCache \<Rightarrow> string \<Rightarrow> error + FileRecord" where
  "GetFileRecord fc filePath =
     (case findRecord filePath (Files (data fc)) of
        Some record \<Rightarrow> Inr record
      | None \<Rightarrow> Inl (NotInCache filePath))"

definition SaveRawRecord :: "FileCache \<Rightarrow> string \<Rightarrow> Entry \<Rightarrow> time \<Rightarrow> error option \<times> FileCache" where
  "SaveRawRecord fc k e now =
     (let files = Files (data fc);
          newRecord = \<lparr>Path = k, Hash = EntryHash e, LastAnalyzed = now,
                       Issues = EntryIssues e, Ignored = []\<rparr>;
          fc1 = fc\<lparr>data := (data fc)\<lparr>Files := removeRecord k files @ [newRecord]\<rparr>\<rparr>
      in saveUnsafe (updateStats fc1) now)"

section \<open>cache: the hybrid cache (LRU in memory over the disk store)\<close>

text \<open>
  The \<open>container/list\<close> of the cache is the sequence \<open>lru\<close> of its elements, front
  first; an element is an address, and \<open>heap\<close> gives the \<open>cacheItem\<close> an element
  holds.  \<open>memCache\<close> maps a key to its element, as \<open>map[string]*list.Element\<close> does.
  \<open>PushFront\<close> allocates the element \<open>nextAddr\<close>.  \<open>dirtyKeys\<close> is the key set of the
  map of that name.  The flush ticker and its goroutine are outside this model.
\<close>

type_synonym addr = nat

record cacheItem =
  key :: string
  entry :: Entry
  lastAccess :: time

record HybridCache =
  memCache :: "string \<rightharpoonup> addr"
  lru :: "addr list"
  heap :: "addr \<Rightarrow> cacheItem"
  nextAddr :: addr
  maxItems :: int
  diskCache :: FileCache
  dirtyKeys :: "string set"

definition defaultMaxMemoryItems :: int where
  "defaultMaxMemoryItems = 1000"

text \<open>\<open>l.MoveToFront(e)\<close>: nothing happens when \<open>e\<close> is not an element of \<open>l\<close>.\<close>

definition MoveToFront :: "addr \<Rightarrow> addr list \<Rightarrow> addr list" where
  "MoveToFront a l = (if a \<in> set l then a # remove1 a l else l)"

definition flushItem :: "HybridCache \<Rightarrow> string \<Rightarrow> Entry \<Rightarrow> time \<Rightarrow> HybridCache" where
  "flushItem hc k e now = hc\<lparr>diskCache := snd (SaveRawRecord (diskCache hc) k e now)\<rparr>"

definition evictOldest :: "HybridCache \<Rightarrow> time \<Rightarrow> HybridCache" where
  "evictOldest hc now =
     (if lru hc = [] then hc
      else (let elem = last (lru hc);
                item = heap hc elem;
                hc1 = hc\<lparr>lru := butlast (lru hc),
                         memCache := (memCache hc)(key item := None)\<rparr>
            in if key item \<in> dirtyKeys hc1
               then (flushItem hc1 (key item) (entry item) now)
                      \<lparr>dirtyKeys := dirtyKeys hc1 - {key item}\<rparr>
               else hc1))"

definition addToMemCache :: "HybridCache \<Rightarrow> string \<Rightarrow> Entry \<Rightarrow> time \<Rightarrow> HybridCache" where
  "addToMemCache hc k e now =
     (let hc1 = (if int (length (lru hc)) \<ge> maxItems hc then evictOldest hc now else hc);
          item = \<lparr>key = k, entry = e, lastAccess = now\<rparr>;
          elem = nextAddr hc1
      in hc1\<lparr>heap := (heap hc1)(elem := item),
              lru := elem # lru hc1,
              nextAddr := elem + 1,
              memCache := (memCache hc1)(k \<mapsto> elem)\<rparr>)"

text \<open>\<open>Get\<close> returns a pointer to the entry; the model returns the entry it points to.\<close>

definition Get :: "HybridCache \<Rightarrow> string \<Rightarrow> time \<Rightarrow> Entry option \<times> HybridCache" where
  "Get hc k now =
     (case memCache hc k of
        Some elem \<Rightarrow>
          (let item = (heap hc elem)\<lparr>lastAccess := now\<rparr>
           in (Some (entry item),
               hc\<lparr>lru := MoveToFront elem (lru hc), heap := (heap hc)(elem := item)\<rparr>))
      | None \<Rightarrow>
          (case GetFileRecord (diskCache hc) k of
             Inr record \<Rightarrow>
               (let e = \<lparr>EntryHash = Hash record, EntryIssues = Issues record\<rparr>
                in (Some e, addToMemCache hc k e now))
           | Inl err \<Rightarrow> (None, hc)))"

definition Put :: "HybridCache \<Rightarrow> string \<Rightarrow> Entry \<Rightarrow> time \<Rightarrow> HybridCache" where
  "Put hc k e now =
     (let hc1 = hc\<lparr>dirtyKeys := insert k (dirtyKeys hc)\<rparr>
      in case memCache hc1 k of
           Some elem \<Rightarrow>
             hc1\<lparr>lru := MoveToFront elem (lru hc1),
                 heap := (heap hc1)(elem := (heap hc1 elem)\<lparr>entry := e, lastAccess := now\<rparr>)\<rparr>
         | None \<Rightarrow> addToMemCache hc1 k e now)"

definition hours24 :: int where
  "hours24 = 24 * 3600 * 1000000000"

fun preloadLoop :: "FileRecord list \<Rightarrow> int \<Rightarrow> int \<Rightarrow> HybridCache \<Rightarrow> time \<Rightarrow> HybridCache" where
  "preloadLoop [] count maxPreload hc now = hc"
| "preloadLoop (record # rest) count maxPreload hc now =
     (if count \<ge> maxPreload then hc
      else if now - LastAnalyzed record < hours24
      then preloadLoop rest (count + 1) maxPreload
             (addToMemCache hc (Path record)
                \<lparr>EntryHash = Hash record, EntryIssues = Issues record\<rparr> now) now
      else preloadLoop rest count maxPreload hc now)"

definition preloadHotData :: "HybridCache \<Rightarrow> time \<Rightarrow> HybridCache" where
  "preloadHotData hc now =
     preloadLoop (Files (data (diskCache hc))) 0 (maxItems hc div 2) hc now"

text \<open>\<open>NewHybridCache\<close>: \<open>opened\<close> is what \<open>New(baseDir)\<close> returns, the disk store as
  loaded or the error of creating its directory.\<close>

definition NewHybridCache :: "error + FileCache \<Rightarrow> int \<Rightarrow> time \<Rightarrow> error + HybridCache" where
  "NewHybridCache opened maxItems0 now =
     (let m = (if maxItems0 \<le> 0 then defaultMaxMemoryItems else maxItems0)
      in case opened of
           Inl err \<Rightarrow> Inl err
         | Inr disk \<Rightarrow>
             Inr (preloadHotData
                    \<lparr>memCache = Map.empty, lru = [],
                     heap = (\<lambda>a. \<lparr>key = [], entry = \<lparr>EntryHash = [], EntryIssues = []\<rparr>,
                                    lastAccess = 0\<rparr>),
                     nextAddr = 0, maxItems = m, diskCache = disk, dirtyKeys = {}\<rparr> now))"

subsection \<open>Runs of the cache, its invariant and the value of a key\<close>

text \<open>A store as \<open>New\<close> builds it when no cache file exists yet.\<close>

definition freshFileCache :: "string \<Rightarrow> time \<Rightarrow> FileCache" where
  "freshFileCache dir now =
     \<lparr>baseDir = dir, cacheDir = dir @ ''/.abscleaner'',
      data = \<lparr>Version = ''1.0'', Files = [], IgnoredRules = [],
               Stats = \<lparr>TotalFiles = 0, TotalIssues = 0, IgnoredIssues = 0, FixedIssues = 0,
                        LastFullScan = 0, CacheHits = 0, CacheMisses = 0\<rparr>,
               LastUpdated = now\<rparr>,
      fsWritable = True, fsFile = None\<rparr>"













text \<open>The entry the cache holds for a key: the one in memory, else the one on disk.\<close>

definition stored :: "HybridCache \<Rightarrow> string \<Rightarrow> Entry option" where
  "stored hc k =
     (case memCache hc k of
        Some a \<Rightarrow> Some (entry (heap hc a))
      | None \<Rightarrow>
          (case GetFileRecord (diskCache hc) k of
             Inr r \<Rightarrow> Some \<lparr>EntryHash = Hash r, EntryIssues = Issues r\<rparr>
           | Inl err \<Rightarrow> None))"

section \<open>analyzer/ignore.go: the suppression engine\<close>

record ignoreRange =
  startLine :: int
  endLine :: int
  issueType :: string

record IgnoreChecker =
  fset :: FileSet
  astFile :: File
  ignoreRanges :: "string \<rightharpoonup> ignoreRange list"

definition extractCommentText :: "string \<Rightarrow> string" where
  "extractCommentText text =
     TrimSpace (if HasPrefix text ''//'' then TrimPrefix text ''//''
                else if HasPrefix text ''/*'' then TrimSuffix (TrimPrefix text ''/*'') ''*/''
                else text)"

definition addIgnoreRange :: "IgnoreChecker \<Rightarrow> string \<Rightarrow> int \<Rightarrow> int \<Rightarrow> IgnoreChecker" where
  "addIgnoreRange ic ty s e =
     (let ir = \<lparr>startLine = s, endLine = e, issueType = ty\<rparr>
      in ic\<lparr>ignoreRanges := (ignoreRanges ic)
              (ty \<mapsto> (case ignoreRanges ic ty of None \<Rightarrow> [] | Some rs \<Rightarrow> rs) @ [ir])\<rparr>)"

definition processSpecificDirective ::
  "IgnoreChecker \<Rightarrow> string \<Rightarrow> string list \<Rightarrow> int \<Rightarrow> IgnoreChecker" where
  "processSpecificDirective ic directive issueTypes line =
     (if directive = ''abc:ignore-line'' then
        fold (\<lambda>ty ic. addIgnoreRange ic (TrimSpace ty) line line) issueTypes ic
      else if directive = ''abc:ignore-next-line'' then
        fold (\<lambda>ty ic. addIgnoreRange ic (TrimSpace ty) (line + 1) (line + 1)) issueTypes ic
      else if directive = ''abc:ignore-file'' then
        fold (\<lambda>ty ic. addIgnoreRange ic (TrimSpace (if ty = [] then ''*'' else ty)) 0 999999)
          issueTypes ic
      else if directive = ''abc:ignore'' then
        (if length issueTypes = 0 then addIgnoreRange ic [] (line + 1) (line + 1)
         else fold (\<lambda>ty ic.
                (let ty = TrimSpace ty
                 in if Contains ty ''_IN_LOOP'' \<or> Contains ty ''LOOP_''
                    then addIgnoreRange ic ty (line + 1) (line + 10)
                    else addIgnoreRange ic ty (line + 1) (line + 1))) issueTypes ic)
      else ic)"

text \<open>\<open>parts[0]\<close> and \<open>parts[1]\<close> are read by pattern; \<open>Split\<close> never returns the
  empty list, so the last case is not reached.\<close>

definition processIgnoreDirective :: "IgnoreChecker \<Rightarrow> string \<Rightarrow> int \<Rightarrow> IgnoreChecker" where
  "processIgnoreDirective ic text pos =
     (let line = fset ic pos
      in case Split text (CHR '' '') of
           [p] \<Rightarrow> addIgnoreRange ic [] (line + 1) (line + 1)
         | directive # p1 # ps \<Rightarrow>
             processSpecificDirective ic directive (Split p1 (CHR '','')) line
         | [] \<Rightarrow> ic)"

definition parseComment :: "Comment \<Rightarrow> IgnoreChecker \<Rightarrow> IgnoreChecker" where
  "parseComment c ic =
     (let text = extractCommentText (Text c)
      in if HasPrefix text ''abc:ignore'' then processIgnoreDirective ic text (Slash c)
         else ic)"

definition parseIgnoreComments :: "IgnoreChecker \<Rightarrow> IgnoreChecker" where
  "parseIgnoreComments ic = fold (\<lambda>cg ic. fold parseComment cg ic) (Comments (astFile ic)) ic"

definition NewIgnoreChecker :: "FileSet \<Rightarrow> File \<Rightarrow> IgnoreChecker" where
  "NewIgnoreChecker fs f =
     parseIgnoreComments \<lparr>fset = fs, astFile = f, ignoreRanges = Map.empty\<rparr>"

fun covers :: "ignoreRange list \<Rightarrow> int \<Rightarrow> bool" where
  "covers [] line = False"
| "covers (r # rs) line =
     (if line \<ge> startLine r \<and> line \<le> endLine r then True else covers rs line)"

definition rangesCover :: "IgnoreChecker \<Rightarrow> string \<Rightarrow> int \<Rightarrow> bool" where
  "rangesCover ic ty line =
     (case ignoreRanges ic ty of None \<Rightarrow> False | Some ranges \<Rightarrow> covers ranges line)"

definition ShouldIgnore :: "IgnoreChecker \<Rightarrow> string \<Rightarrow> int \<Rightarrow> bool" where
  "ShouldIgnore ic ty line =
     (if rangesCover ic ty line then True
      else if rangesCover ic [] line then True
      else if rangesCover ic ''*'' line then True
      else False)"

text \<open>The loop of \<open>FilterIssuesByComments\<close>.  \<open>issue.Type.String()\<close> is generated code
  that is not part of the sources at hand; the map from a category to its name is the
  parameter \<open>name\<close>.\<close>

fun filterLoop :: "(IssueType \<Rightarrow> string) \<Rightarrow> IgnoreChecker \<Rightarrow> issue_ptr list \<Rightarrow> issue_ptr list" where
  "filterLoop name ic [] = []"
| "filterLoop name ic (None # rest) = filterLoop name ic rest"
| "filterLoop name ic (Some issue # rest) =
     (if \<not> ShouldIgnore ic (name (Type issue)) (Line issue)
      then Some issue # filterLoop name ic rest
      else filterLoop name ic rest)"

definition FilterIssuesByComments ::
  "(IssueType \<Rightarrow> string) \<Rightarrow> issue_ptr slice \<Rightarrow> FileSet option \<Rightarrow> File option \<Rightarrow> issue_ptr slice" where
  "FilterIssuesByComments name issues fs f =
     (case f of
        None \<Rightarrow> issues
      | Some f' \<Rightarrow>
          (case fs of
             None \<Rightarrow> issues
           | Some fs' \<Rightarrow> Slice (filterLoop name (NewIgnoreChecker fs' f') (elems issues))))"


text \<open>The (category key, line) pairs that some recorded range covers: the view of a
  checker that \<open>ShouldIgnore\<close> depends on.\<close>

definition suppressed :: "IgnoreChecker \<Rightarrow> (string \<times> int) set" where
  "suppressed ic = {(k, l). rangesCover ic k l}"

text \<open>The zero value of \<open>models.Issue\<close>, the base of the concrete diagnostics below.\<close>

definition zeroIssue :: Issue where
  "zeroIssue = \<lparr>ID = [], File = [], Line = 0, Column = 0,
     Position = \<lparr>Filename = [], Offset = 0, PosLine = 0, PosColumn = 0\<rparr>,
     Type = 0, Severity = 0, Message = [], Suggestion = [], Code = [], CanBeFixed = False,
     FixedAt = 0, CreatedAt = 0, UpdatedAt = 0, IgnoredAt = 0, IgnoreType = 0, WhyBad = []\<rparr>"

section \<open>The disk store's records as pointers\<close>

text \<open>
  \<open>GetFileRecord\<close> once more, with the memory it works on made explicit, for the
  question of what the returned record shares with the store.  \<open>fc.data.Files\<close> is a
  list of pointers to \<open>FileRecord\<close> structs; a struct's \<open>Issues\<close> and \<open>Ignored\<close> are
  slice headers (backing array and length); an element of the \<open>Issues\<close> array points to
  a \<open>models.Issue\<close>.  \<open>recordCopy := *record\<close> allocates the cell \<open>nextCell\<close> and
  copies the struct, headers included, into it.
\<close>

record sliceHdr =
  base :: addr
  len :: nat

record FileRecordCell =
  PathC :: string
  HashC :: string
  LastAnalyzedC :: time
  IssuesC :: sliceHdr
  IgnoredC :: sliceHdr

record Memory =
  recordCell :: "addr \<Rightarrow> FileRecordCell"
  issueArray :: "addr \<Rightarrow> addr list"
  stringArray :: "addr \<Rightarrow> string list"
  issueCell :: "addr \<Rightarrow> Issue"
  nextCell :: addr

fun findRecordPtr :: "Memory \<Rightarrow> string \<Rightarrow> addr list \<Rightarrow> addr option" where
  "findRecordPtr mem p [] = None"
| "findRecordPtr mem p (r # rs) =
     (if PathC (recordCell mem r) = p then Some r else findRecordPtr mem p rs)"

definition GetFileRecordPtr :: "Memory \<Rightarrow> addr list \<Rightarrow> string \<Rightarrow> (error + addr) \<times> Memory" where
  "GetFileRecordPtr mem files filePath =
     (case findRecordPtr mem filePath files of
        Some record \<Rightarrow>
          (let recordCopy = nextCell mem
           in (Inr recordCopy,
               mem\<lparr>recordCell := (recordCell mem)(recordCopy := recordCell mem record),
                   nextCell := recordCopy + 1\<rparr>))
      | None \<Rightarrow> (Inl (NotInCache filePath), mem))"

text \<open>The record a cell denotes, and the value of the whole store: what the value-level
  model above calls \<open>Files\<close>.\<close>

definition recordValue :: "Memory \<Rightarrow> addr \<Rightarrow> FileRecord" where
  "recordValue mem r =
     (let c = recordCell mem r
      in \<lparr>Path = PathC c, Hash = HashC c, LastAnalyzed = LastAnalyzedC c,
          Issues = map (issueCell mem) (take (len (IssuesC c)) (issueArray mem (base (IssuesC c)))),
          Ignored = take (len (IgnoredC c)) (stringArray mem (base (IgnoredC c)))\<rparr>)"

definition storeValue :: "Memory \<Rightarrow> addr list \<Rightarrow> FileRecord list" where
  "storeValue mem files = map (recordValue mem) files"

text \<open>A store of one record with one diagnostic.\<close>

definition sharedMemory :: Memory where
  "sharedMemory =
     \<lparr>recordCell = (\<lambda>a. \<lparr>PathC = ''a.go'', HashC = ''h0'', LastAnalyzedC = 0,
                          IssuesC = \<lparr>base = 0, len = 1\<rparr>, IgnoredC = \<lparr>base = 0, len = 0\<rparr>\<rparr>),
      issueArray = (\<lambda>a. [0]),
      stringArray = (\<lambda>a. []),
      issueCell = (\<lambda>a. zeroIssue\<lparr>Message := ''found''\<rparr>),
      nextCell = 1\<rparr>"

text \<open>A store whose record for \<open>a.go\<close> carries a dismissed diagnostic.\<close>

definition dismissedStore :: FileCache where
  "dismissedStore =
     (freshFileCache ''/p'' 0)\<lparr>data := (data (freshFileCache ''/p'' 0))
        \<lparr>Files := [\<lparr>Path = ''a.go'', Hash = ''h0'', LastAnalyzed = 0,
                    Issues = [zeroIssue\<lparr>ID := ''issue-1''\<rparr>], Ignored = [''issue-1'']\<rparr>]\<rparr>\<rparr>"

section \<open>analyzer/analyzer.go: the fingerprint and the orchestrator\<close>

subsection \<open>strconv and hash/fnv\<close>

text \<open>\<open>strconv.AppendInt(buf, i, 10)\<close> and \<open>strconv.FormatUint(h, 36)\<close> over the digit
  table of package strconv; FNV-1a on 64 bits as \<open>hash/fnv\<close> computes it, one byte at
  a time: exclusive-or, then multiplication by the prime, modulo \<open>2^64\<close>.\<close>

definition digits :: string where
  "digits = ''0123456789abcdefghijklmnopqrstuvwxyz''"

definition digitChar :: "nat \<Rightarrow> char" where
  "digitChar d = digits ! d"

fun formatNat :: "nat \<Rightarrow> nat \<Rightarrow> string" where
  "formatNat b n =
     (if b < 2 \<or> n < b then [digitChar n] else formatNat b (n div b) @ [digitChar (n mod b)])"

definition AppendInt :: "string \<Rightarrow> int \<Rightarrow> string" where
  "AppendInt buf i =
     buf @ (if i < 0 then CHR ''-'' # formatNat 10 (nat (- i)) else formatNat 10 (nat i))"

definition FormatUint36 :: "64 word \<Rightarrow> string" where
  "FormatUint36 h = formatNat 36 (unat h)"

definition offset64 :: "64 word" where
  "offset64 = 14695981039346656037"

definition prime64 :: "64 word" where
  "prime64 = 1099511628211"

definition fnvWrite :: "64 word \<Rightarrow> string \<Rightarrow> 64 word" where
  "fnvWrite h bs = fold (\<lambda>c h. (h XOR of_nat (of_char c)) * prime64) bs h"

subsection \<open>computeFileHash\<close>

text \<open>The visitor of \<open>ast.Inspect\<close>: it is called on every node before the node's
  children (and with nil after them, which it ignores), counts the node and, unless the
  node's position is \<open>token.NoPos\<close> (zero), writes the position's decimal digits to
  the hash.  The state is the hash and \<open>nodeCount\<close>.\<close>

fun inspectNode :: "node \<Rightarrow> 64 word \<times> nat \<Rightarrow> 64 word \<times> nat" where
  "inspectNode (Node pos children) (h, nodeCount) =
     fold inspectNode children
       (if pos \<noteq> 0 then fnvWrite h (AppendInt [] pos) else h, nodeCount + 1)"

definition computeFileHash :: "File \<Rightarrow> string" where
  "computeFileHash f =
     (case inspectNode (Root f) (offset64, 0) of
        (h, nodeCount) \<Rightarrow> FormatUint36 (fnvWrite h (AppendInt [] (int nodeCount))))"

text \<open>The bytes the visitor writes for a tree, and the number of nodes it counts.\<close>

fun posDigits :: "node \<Rightarrow> string" where
  "posDigits (Node pos children) =
     (if pos \<noteq> 0 then AppendInt [] pos else []) @ concat (map posDigits children)"

fun countNodes :: "node \<Rightarrow> nat" where
  "countNodes (Node pos children) = 1 + sum_list (map countNodes children)"

text \<open>All the bytes written to the hash for a file: the digits of the positions, then
  the digits of the node count.\<close>

definition hashInput :: "File \<Rightarrow> string" where
  "hashInput f = posDigits (Root f) @ AppendInt [] (int (countNodes (Root f)))"

text \<open>Reading a base-36 numeral back: the index of a digit in the digit table, and the
  number a digit string denotes.\<close>

fun indexOf :: "char \<Rightarrow> string \<Rightarrow> nat" where
  "indexOf c [] = 0"
| "indexOf c (d # ds) = (if c = d then 0 else Suc (indexOf c ds))"

definition valueOf :: "string \<Rightarrow> nat" where
  "valueOf s = foldl (\<lambda>v c. v * 36 + indexOf c digits) 0 s"

subsection \<open>The caches of the orchestrator\<close>

text \<open>
  The package-level state: the hybrid cache (nil when \<open>init\<close> could not create it) and
  the legacy cache.  \<open>analyzerCalls\<close> records each call of a rule's \<open>Analyze\<close> method,
  by the rule's registry name, in order: the effect of running a rule that a
  call-counting rule would observe.
\<close>

record CacheEntry =
  CHash :: string
  CIssues :: "issue_ptr slice"
  Timestamp :: time

record AnalysisCache =
  results :: "string \<rightharpoonup> CacheEntry"
  maxAge :: int

record Globals =
  globalHybridCache :: "HybridCache option"
  globalCache :: AnalysisCache
  analyzerCalls :: "string list"

definition minutes15 :: int where
  "minutes15 = 15 * 60 * 1000000000"

definition initGlobals :: "error + HybridCache \<Rightarrow> Globals" where
  "initGlobals created =
     \<lparr>globalHybridCache = (case created of Inl err \<Rightarrow> None | Inr hc \<Rightarrow> Some hc),
      globalCache = \<lparr>results = Map.empty, maxAge = minutes15\<rparr>,
      analyzerCalls = []\<rparr>"

fun cloneLoop :: "issue_ptr list \<Rightarrow> issue_ptr list" where
  "cloneLoop [] = []"
| "cloneLoop (None # rest) = cloneLoop rest"
| "cloneLoop (Some issue # rest) = Some issue # cloneLoop rest"

definition cloneIssues :: "issue_ptr slice \<Rightarrow> issue_ptr slice" where
  "cloneIssues src = (if length (elems src) = 0 then Slice [] else Slice (cloneLoop (elems src)))"

text \<open>A cache entry's diagnostics as a slice of pointers, and the diagnostics a slice
  without nil elements points to (the result of \<open>cloneIssues\<close> is such a slice).\<close>

definition pointers :: "Issue list \<Rightarrow> issue_ptr slice" where
  "pointers xs = Slice (map Some xs)"

definition pointees :: "issue_ptr slice \<Rightarrow> Issue list" where
  "pointees s = List.map_filter (\<lambda>p. p) (elems s)"

definition checkCache ::
  "Globals \<Rightarrow> string \<Rightarrow> File \<Rightarrow> time \<Rightarrow> (issue_ptr slice \<times> bool) \<times> Globals" where
  "checkCache g filename f now =
     (let hash = computeFileHash f
      in case globalHybridCache g of
           Some hc \<Rightarrow>
             (case Get hc filename now of
                (Some e, hc') \<Rightarrow>
                  (if EntryHash e = hash
                   then ((cloneIssues (pointers (EntryIssues e)), True),
                         g\<lparr>globalHybridCache := Some hc'\<rparr>)
                   else ((NilSlice, False), g\<lparr>globalHybridCache := Some hc'\<rparr>))
              | (None, hc') \<Rightarrow> ((NilSlice, False), g\<lparr>globalHybridCache := Some hc'\<rparr>))
         | None \<Rightarrow>
             (case results (globalCache g) filename of
                Some e \<Rightarrow>
                  (if CHash e = hash \<and> now - Timestamp e < maxAge (globalCache g)
                   then ((CIssues e, True), g)
                   else ((NilSlice, False), g))
              | None \<Rightarrow> ((NilSlice, False), g)))"

definition cleanCache :: "AnalysisCache \<Rightarrow> time \<Rightarrow> AnalysisCache" where
  "cleanCache c now =
     c\<lparr>results := (\<lambda>k. case results c k of
                          None \<Rightarrow> None
                        | Some e \<Rightarrow> if now - Timestamp e > maxAge c then None else Some e)\<rparr>"

definition updateCache :: "Globals \<Rightarrow> string \<Rightarrow> File \<Rightarrow> issue_ptr slice \<Rightarrow> time \<Rightarrow> Globals" where
  "updateCache g filename f issues now =
     (let hash = computeFileHash f;
          g1 = (case globalHybridCache g of
                  Some hc \<Rightarrow>
                    g\<lparr>globalHybridCache :=
                        Some (Put hc filename
                                \<lparr>EntryHash = hash, EntryIssues = pointees (cloneIssues issues)\<rparr>
                                now)\<rparr>
                | None \<Rightarrow> g);
          c = globalCache g1;
          c1 = c\<lparr>results := (results c)
                  (filename \<mapsto> \<lparr>CHash = hash, CIssues = cloneIssues issues, Timestamp = now\<rparr>)\<rparr>
      in g1\<lparr>globalCache := cleanCache c1 now\<rparr>)"

subsection \<open>Analyze\<close>

text \<open>The registry, in registration order.  What a rule returns on a file is the
  parameter \<open>rs\<close>: \<open>rs name f fs\<close> is the result of \<open>entry.fn().Analyze(file, fset)\<close>
  for the entry called \<open>name\<close>.\<close>

definition allAnalyzers :: "string list" where
  "allAnalyzers =
     [''loop'', ''deferoptimization'', ''slice'', ''map'', ''reflection'', ''interface'',
      ''regex'', ''time'', ''memoryleak'', ''database'',
      ''apimisuse'', ''aibullshit'', ''goroutine'', ''channel'', ''httpclient'', ''context'',
      ''racecondition'', ''concurrencypatterns'', ''networkpatterns'', ''cpuoptimization'',
      ''gcpressure'', ''syncpool'',
      ''cgo'', ''serialization'', ''crypto'', ''httpreuse'', ''iobuffer'',
      ''privacy'', ''structlayout'', ''cpucache'', ''testcoverage'']"

definition isEnabled :: "(string \<rightharpoonup> bool) option \<Rightarrow> string \<Rightarrow> bool" where
  "isEnabled enabledAnalyzers name =
     (case enabledAnalyzers of
        None \<Rightarrow> True
      | Some m \<Rightarrow> (case m name of None \<Rightarrow> False | Some b \<Rightarrow> b))"

type_synonym rules = "string \<Rightarrow> File \<Rightarrow> FileSet option \<Rightarrow> issue_ptr slice"

fun runAnalyzers ::
  "rules \<Rightarrow> File \<Rightarrow> FileSet option \<Rightarrow> (string \<rightharpoonup> bool) option \<Rightarrow> string list
     \<Rightarrow> issue_ptr list \<times> string list \<Rightarrow> issue_ptr list \<times> string list" where
  "runAnalyzers rs f fs enabled [] acc = acc"
| "runAnalyzers rs f fs enabled (name # rest) (issues, calls) =
     (if isEnabled enabled name
      then runAnalyzers rs f fs enabled rest
             (issues @ elems (rs name f fs), calls @ [name])
      else runAnalyzers rs f fs enabled rest (issues, calls))"

definition Analyze ::
  "rules \<Rightarrow> Globals \<Rightarrow> string \<Rightarrow> File option \<Rightarrow> FileSet option \<Rightarrow> (string \<rightharpoonup> bool) option
     \<Rightarrow> time \<Rightarrow> issue_ptr slice \<times> Globals" where
  "Analyze rs g filename file fs enabledAnalyzers now =
     (case file of
        None \<Rightarrow> (Slice [], g)
      | Some f \<Rightarrow>
          (case checkCache g filename f now of
             ((cachedIssues, True), g1) \<Rightarrow> (cachedIssues, g1)
           | ((cachedIssues, False), g1) \<Rightarrow>
               (case runAnalyzers rs f fs enabledAnalyzers allAnalyzers ([], analyzerCalls g1) of
                  (issues, calls) \<Rightarrow>
                    (Slice issues,
                     updateCache (g1\<lparr>analyzerCalls := calls\<rparr>) filename f (Slice issues) now))))"

definition AnalyzeAll ::
  "rules \<Rightarrow> Globals \<Rightarrow> string \<Rightarrow> File option \<Rightarrow> FileSet option \<Rightarrow> time
     \<Rightarrow> issue_ptr slice \<times> Globals" where
  "AnalyzeAll rs g filename file fs now = Analyze rs g filename file fs None now"

text \<open>The diagnostics the enabled rules return for a file, in registry order.\<close>

definition ruleOutput ::
  "rules \<Rightarrow> File \<Rightarrow> FileSet option \<Rightarrow> (string \<rightharpoonup> bool) option \<Rightarrow> issue_ptr list" where
  "ruleOutput rs f fs enabled =
     concat (map (\<lambda>n. elems (rs n f fs)) (filter (isEnabled enabled) allAnalyzers))"

text \<open>What a cache lookup for a path finds at a given time: the stored fingerprint and
  the diagnostics \<open>checkCache\<close> would hand out.  \<open>legacyFresh\<close>: the legacy cache has an
  entry for the path that is younger than \<open>maxAge\<close>.\<close>

definition legacyFresh :: "Globals \<Rightarrow> string \<Rightarrow> time \<Rightarrow> bool" where
  "legacyFresh g p now =
     (case results (globalCache g) p of
        Some e \<Rightarrow> now - Timestamp e < maxAge (globalCache g)
      | None \<Rightarrow> False)"

definition served :: "Globals \<Rightarrow> string \<Rightarrow> time \<Rightarrow> (string \<times> issue_ptr slice) option" where
  "served g p now =
     (case globalHybridCache g of
        Some hc \<Rightarrow>
          (case fst (Get hc p now) of
             Some e \<Rightarrow> Some (EntryHash e, cloneIssues (pointers (EntryIssues e)))
           | None \<Rightarrow> None)
      | None \<Rightarrow>
          (case results (globalCache g) p of
             Some e \<Rightarrow> if now - Timestamp e < maxAge (globalCache g)
                       then Some (CHash e, CIssues e) else None
           | None \<Rightarrow> None))"

text \<open>Concrete inputs: a rule reporting the root's position as a line, small trees, and
  the package state after \<open>init\<close> with and without a hybrid cache.\<close>

fun rootPos :: "node \<Rightarrow> int" where
  "rootPos (Node pos children) = pos"

definition lineRule :: rules where
  "lineRule name f fs =
     (if name = ''loop'' then Slice [Some (zeroIssue\<lparr>Line := rootPos (Root f)\<rparr>)] else NilSlice)"

definition treeA :: File where
  "treeA = \<lparr>Root = Node 1 [Node 11 [], Node 112 []], Comments = []\<rparr>"

definition treeB :: File where
  "treeB = \<lparr>Root = Node 11 [Node 11 [], Node 12 []], Comments = []\<rparr>"

definition treeOne :: File where
  "treeOne = \<lparr>Root = Node 1 [], Comments = []\<rparr>"

definition treeTwo :: File where
  "treeTwo = \<lparr>Root = Node 2 [], Comments = []\<rparr>"

definition startGlobals :: Globals where
  "startGlobals = initGlobals (NewHybridCache (Inr (freshFileCache ''/p'' 0)) 1000 0)"


section \<open>Properties of the suppression engine\<close>

lemma filterLoop_filter:
  "filterLoop name ic xs =
     filter (\<lambda>p. case p of None \<Rightarrow> False
                  | Some i \<Rightarrow> \<not> ShouldIgnore ic (name (Type i)) (Line i)) xs"
  by (induction name ic xs rule: filterLoop.induct) auto

lemma filterLoop_idem: "filterLoop name ic (filterLoop name ic xs) = filterLoop name ic xs"
  by (simp add: filterLoop_filter)

text \<open>
  C9.  Filtering an already filtered diagnostic list against the same file set and parsed
  file returns the same list: the second pass removes nothing.  This covers the
  pass-through cases (absent file or file set) as well.
\<close>

theorem FilterIssuesByComments_idempotent:
  "FilterIssuesByComments name (FilterIssuesByComments name L fs f) fs f
     = FilterIssuesByComments name L fs f"
  by (simp add: FilterIssuesByComments_def filterLoop_idem split: option.splits)

lemma Split_not_Nil: "Split s sep \<noteq> []"
  by (induction s) (auto split: list.splits)




lemma covers_append:
  "covers (rs @ [r]) l = (covers rs l \<or> (startLine r \<le> l \<and> l \<le> endLine r))"
  by (induction rs) auto

lemma rangesCover_add:
  "rangesCover (addIgnoreRange ic ty s e) k l =
     (rangesCover ic k l \<or> (k = ty \<and> s \<le> l \<and> l \<le> e))"
  by (auto simp: rangesCover_def addIgnoreRange_def covers_append split: option.splits)

lemma suppressed_add:
  "suppressed (addIgnoreRange ic ty s e) = suppressed ic \<union> {(ty, l) | l. s \<le> l \<and> l \<le> e}"
  by (auto simp: suppressed_def rangesCover_add)

lemma suppressed_fold_add:
  "suppressed (fold (\<lambda>ty ic. addIgnoreRange ic (g ty) (s ty) (e ty)) tys ic) =
     suppressed ic \<union> (\<Union>ty\<in>set tys. {(g ty, l) | l. s ty \<le> l \<and> l \<le> e ty})"
  by (induction tys arbitrary: ic) (auto simp: suppressed_add)

lemma addIgnoreRange_frame:
  "(addIgnoreRange ic ty s e)\<lparr>ignoreRanges := m\<rparr> = ic\<lparr>ignoreRanges := m\<rparr>"
  by (simp add: addIgnoreRange_def)

lemma fold_add_frame:
  "(fold (\<lambda>ty ic. addIgnoreRange ic (g ty) (s ty) (e ty)) tys ic)\<lparr>ignoreRanges := m\<rparr>
     = ic\<lparr>ignoreRanges := m\<rparr>"
  by (induction tys arbitrary: ic) (auto simp: addIgnoreRange_frame)

lemma loop_branch:
  "(\<lambda>ty ic. let ty = TrimSpace ty
            in if Contains ty ''_IN_LOOP'' \<or> Contains ty ''LOOP_''
               then addIgnoreRange ic ty a b else addIgnoreRange ic ty a c)
   = (\<lambda>ty ic. addIgnoreRange ic (TrimSpace ty) a
         (if Contains (TrimSpace ty) ''_IN_LOOP'' \<or> Contains (TrimSpace ty) ''LOOP_'' then b else c))"
  by (auto simp: Let_def fun_eq_iff)

lemma processSpecificDirective_frame:
  "(processSpecificDirective ic d tys line)\<lparr>ignoreRanges := m\<rparr> = ic\<lparr>ignoreRanges := m\<rparr>"
  unfolding processSpecificDirective_def loop_branch
  by (simp add: fold_add_frame addIgnoreRange_frame)

lemma parseComment_frame: "(parseComment c ic)\<lparr>ignoreRanges := m\<rparr> = ic\<lparr>ignoreRanges := m\<rparr>"
  by (simp add: parseComment_def processIgnoreDirective_def Let_def
      processSpecificDirective_frame addIgnoreRange_frame split: list.splits)

lemma fset_frame: "fset ic = fset (ic\<lparr>ignoreRanges := m\<rparr>)" by simp

lemma parseComment_fset: "fset (parseComment c ic) = fset ic"
  by (metis parseComment_frame fset_frame)

lemma fold_concat_nested: "fold (\<lambda>xs s. fold f xs s) xss s = fold f (concat xss) s"
  by (induction xss arbitrary: s) auto

lemma suppressed_empty: "suppressed (ic\<lparr>ignoreRanges := Map.empty\<rparr>) = {}"
  by (simp add: suppressed_def rangesCover_def)

lemma suppressed_specific:
  "suppressed (processSpecificDirective ic d tys line) =
     suppressed ic \<union> suppressed (processSpecificDirective (ic\<lparr>ignoreRanges := Map.empty\<rparr>) d tys line)"
  unfolding processSpecificDirective_def loop_branch
  by (simp add: suppressed_fold_add suppressed_add suppressed_empty)

lemma suppressed_parseComment:
  "suppressed (parseComment c ic) =
     suppressed ic \<union> suppressed (parseComment c (ic\<lparr>ignoreRanges := Map.empty\<rparr>))"
  by (simp add: parseComment_def processIgnoreDirective_def Let_def suppressed_empty
      suppressed_specific[of ic] suppressed_add split: list.splits)

lemma suppressed_fold_parse:
  "suppressed (fold parseComment cs ic) =
     suppressed ic \<union> (\<Union>c\<in>set cs. suppressed (parseComment c (ic\<lparr>ignoreRanges := Map.empty\<rparr>)))"
proof (induction cs arbitrary: ic)
  case Nil
  then show ?case by simp
next
  case (Cons c cs)
  have "(parseComment c ic)\<lparr>ignoreRanges := Map.empty\<rparr> = ic\<lparr>ignoreRanges := Map.empty\<rparr>"
    by (rule parseComment_frame)
  then show ?case
    using Cons.IH[of "parseComment c ic"] suppressed_parseComment[of c ic] by auto
qed

lemma ShouldIgnore_suppressed:
  "ShouldIgnore ic ty l =
     ((ty, l) \<in> suppressed ic \<or> ([], l) \<in> suppressed ic \<or> (''*'', l) \<in> suppressed ic)"
  by (auto simp: ShouldIgnore_def suppressed_def)

lemma suppressed_NewIgnoreChecker:
  "suppressed (NewIgnoreChecker fs f) =
     (\<Union>c\<in>set (concat (Comments f)).
        suppressed (parseComment c \<lparr>fset = fs, astFile = f, ignoreRanges = Map.empty\<rparr>))"
proof -
  let ?ic = "\<lparr>fset = fs, astFile = f, ignoreRanges = Map.empty\<rparr>"
  have e: "?ic\<lparr>ignoreRanges := Map.empty\<rparr> = ?ic" by simp
  have s0: "suppressed ?ic = {}" using suppressed_empty[of ?ic] by (simp only: e)
  have "NewIgnoreChecker fs f = fold parseComment (concat (Comments f)) ?ic"
    by (simp add: NewIgnoreChecker_def parseIgnoreComments_def fold_concat_nested)
  then show ?thesis
    using suppressed_fold_parse[of "concat (Comments f)" ?ic] by (simp only: e s0) simp
qed


lemma parse_bare_file:
  assumes dir: "extractCommentText (Text c) = ''abc:ignore-file''"
  shows "parseComment c ic =
           addIgnoreRange ic [] (fset ic (Slash c) + 1) (fset ic (Slash c) + 1)"
  by (simp add: parseComment_def dir HasPrefix_def processIgnoreDirective_def Let_def)

lemma parse_bare:
  assumes dir: "extractCommentText (Text c) = ''abc:ignore''"
  shows "parseComment c ic =
           addIgnoreRange ic [] (fset ic (Slash c) + 1) (fset ic (Slash c) + 1)"
  by (simp add: parseComment_def dir HasPrefix_def processIgnoreDirective_def Let_def)

lemma addIgnoreRange_astFile:
  "addIgnoreRange (ic\<lparr>astFile := g\<rparr>) ty s e = (addIgnoreRange ic ty s e)\<lparr>astFile := g\<rparr>"
  by (simp add: addIgnoreRange_def)

lemma fold_add_astFile:
  "fold (\<lambda>ty ic. addIgnoreRange ic (h ty) (s ty) (e ty)) tys (ic\<lparr>astFile := g\<rparr>)
     = (fold (\<lambda>ty ic. addIgnoreRange ic (h ty) (s ty) (e ty)) tys ic)\<lparr>astFile := g\<rparr>"
  by (induction tys arbitrary: ic) (auto simp: addIgnoreRange_astFile)

lemma processSpecificDirective_astFile:
  "processSpecificDirective (ic\<lparr>astFile := g\<rparr>) d tys line
     = (processSpecificDirective ic d tys line)\<lparr>astFile := g\<rparr>"
  unfolding processSpecificDirective_def loop_branch
  by (simp add: fold_add_astFile addIgnoreRange_astFile)

lemma parseComment_astFile:
  "parseComment c (ic\<lparr>astFile := g\<rparr>) = (parseComment c ic)\<lparr>astFile := g\<rparr>"
  by (simp add: parseComment_def processIgnoreDirective_def Let_def
      processSpecificDirective_astFile addIgnoreRange_astFile split: list.splits)

lemma suppressed_astFile: "suppressed (ic\<lparr>astFile := g\<rparr>) = suppressed ic"
  by (simp add: suppressed_def rangesCover_def)

lemma suppressed_split:
  assumes here: "concat (Comments f) = cs1 @ c # cs2"
    and rest: "concat (Comments f') = cs1 @ cs2"
    and c: "\<And>ic. parseComment c ic = addIgnoreRange ic ty (s (fset ic)) (e (fset ic))"
  shows "suppressed (NewIgnoreChecker fs f) =
           suppressed (NewIgnoreChecker fs f') \<union> {(ty, l) | l. s fs \<le> l \<and> l \<le> e fs}"
proof -
  let ?ic = "\<lambda>g. \<lparr>fset = fs, astFile = g, ignoreRanges = Map.empty\<rparr>"
  have indep: "suppressed (parseComment d (?ic f)) = suppressed (parseComment d (?ic f'))" for d
  proof -
    have "?ic f = (?ic f')\<lparr>astFile := f\<rparr>" by simp
    then show ?thesis by (simp only: parseComment_astFile suppressed_astFile)
  qed
  have e0: "suppressed (?ic f) = {}" by (simp add: suppressed_def rangesCover_def)
  have cc: "suppressed (parseComment c (?ic f)) = {(ty, l) | l. s fs \<le> l \<and> l \<le> e fs}"
    by (simp add: c suppressed_add e0)
  have A: "suppressed (NewIgnoreChecker fs f) =
      (\<Union>d\<in>set cs1. suppressed (parseComment d (?ic f)))
        \<union> suppressed (parseComment c (?ic f))
        \<union> (\<Union>d\<in>set cs2. suppressed (parseComment d (?ic f)))"
    by (simp only: suppressed_NewIgnoreChecker here) auto
  have B: "suppressed (NewIgnoreChecker fs f') =
      (\<Union>d\<in>set cs1. suppressed (parseComment d (?ic f)))
        \<union> (\<Union>d\<in>set cs2. suppressed (parseComment d (?ic f)))"
    by (simp only: suppressed_NewIgnoreChecker rest indep) auto
  show ?thesis unfolding A B cc by auto
qed


lemma no_comments_no_ignore:
  "concat (Comments f) = [] \<Longrightarrow> ShouldIgnore (NewIgnoreChecker fs f) t l = False"
  by (simp only: ShouldIgnore_suppressed suppressed_NewIgnoreChecker) simp



text \<open>
  C10.  A comment whose trimmed text is exactly \<open>abc:ignore-file\<close> splits into one
  part, so it takes the branch of the bare directive: it records the range
  \<open>[N+1, N+1]\<close> under the empty key, as a bare \<open>abc:ignore\<close> at the same position
  does, and no file-wide range.  Its whole effect on \<open>ShouldIgnore\<close> is to cover line
  \<open>N+1\<close> for every category; in a file with no other comment the filter removes the
  diagnostics of line \<open>N+1\<close> and keeps all others.
\<close>

theorem bare_ignore_file_is_next_line:
  assumes dir: "extractCommentText (Text c) = ''abc:ignore-file''"
    and here: "concat (Comments f) = cs1 @ c # cs2"
    and rest: "concat (Comments f') = cs1 @ cs2"
  shows "parseComment c ic =
           addIgnoreRange ic [] (fset ic (Slash c) + 1) (fset ic (Slash c) + 1)
     \<and> (\<forall>c'. extractCommentText (Text c') = ''abc:ignore'' \<and> Slash c' = Slash c \<longrightarrow>
            parseComment c' ic = parseComment c ic)
     \<and> (\<forall>t l. ShouldIgnore (NewIgnoreChecker fs f) t l =
            (ShouldIgnore (NewIgnoreChecker fs f') t l \<or> l = fs (Slash c) + 1))
     \<and> (cs1 = [] \<and> cs2 = [] \<longrightarrow>
          elems (FilterIssuesByComments name L (Some fs) (Some f)) =
            filter (\<lambda>p. case p of None \<Rightarrow> False | Some i \<Rightarrow> Line i \<noteq> fs (Slash c) + 1)
              (elems L))"
proof -
  let ?N = "fs (Slash c)"
  have pc: "\<And>ic. parseComment c ic =
      addIgnoreRange ic [] ((\<lambda>g. g (Slash c) + 1) (fset ic)) ((\<lambda>g. g (Slash c) + 1) (fset ic))"
    using parse_bare_file[OF dir] by simp
  have S: "suppressed (NewIgnoreChecker fs f) =
      suppressed (NewIgnoreChecker fs f') \<union> {([], l) | l. ?N + 1 \<le> l \<and> l \<le> ?N + 1}"
    using suppressed_split[OF here rest pc, of fs] by simp
  have char: "ShouldIgnore (NewIgnoreChecker fs f) t l =
            (ShouldIgnore (NewIgnoreChecker fs f') t l \<or> l = ?N + 1)" for t l
    by (auto simp: ShouldIgnore_suppressed S)
  have none: "cs1 = [] \<and> cs2 = [] \<Longrightarrow> ShouldIgnore (NewIgnoreChecker fs f') t l = False" for t l
    using rest by (simp add: no_comments_no_ignore)
  have filt: "cs1 = [] \<and> cs2 = [] \<Longrightarrow>
      filterLoop name (NewIgnoreChecker fs f) xs =
        filter (\<lambda>p. case p of None \<Rightarrow> False | Some i \<Rightarrow> Line i \<noteq> ?N + 1) xs" for xs
    using char none by (auto simp: filterLoop_filter intro!: filter_cong split: option.splits)
  show ?thesis
    using char filt pc
    by (simp add: FilterIssuesByComments_def parse_bare)
qed

theorem bare_ignore_file_is_next_line_witness:
  "extractCommentText ''// abc:ignore-file'' = ''abc:ignore-file''
   \<and> elems (FilterIssuesByComments (\<lambda>t. ''RaceCondition'')
        (Slice [Some (zeroIssue\<lparr>Line := 3\<rparr>), Some (zeroIssue\<lparr>Line := 4\<rparr>),
                Some (zeroIssue\<lparr>Line := 100\<rparr>)])
        (Some (\<lambda>p. p div 10))
        (Some \<lparr>Root = Node 1 [], Comments = [[\<lparr>Slash = 30, Text = ''// abc:ignore-file''\<rparr>]]\<rparr>))
     = [Some (zeroIssue\<lparr>Line := 3\<rparr>), Some (zeroIssue\<lparr>Line := 100\<rparr>)]"
proof -
  let ?c = "\<lparr>Slash = 30, Text = ''// abc:ignore-file''\<rparr>"
  let ?f = "\<lparr>Root = Node 1 [], Comments = [[?c]]\<rparr>"
  let ?f' = "\<lparr>Root = Node 1 [], Comments = []\<rparr>"
  let ?fs = "\<lambda>p::int. p div 10"
  have dir: "extractCommentText (Text ?c) = ''abc:ignore-file''"
    by (simp add: extractCommentText_def HasPrefix_def TrimPrefix_def TrimSpace_def isSpace_def)
  have here: "concat (Comments ?f) = [] @ ?c # []" by simp
  have rest: "concat (Comments ?f') = [] @ []" by simp
  from bare_ignore_file_is_next_line[OF dir here rest, of _ ?fs]
  show ?thesis using dir by (simp add: zeroIssue_def)
qed

section \<open>Properties of the disk store and the hybrid cache\<close>

subsection \<open>The disk store\<close>

lemma Files_saveUnsafe: "Files (data (snd (saveUnsafe fc now))) = Files (data fc)"
  by (simp add: saveUnsafe_def Let_def)

lemma Files_updateStats: "Files (data (updateStats fc)) = Files (data fc)"
  by (simp add: updateStats_def Let_def)


lemma set_removeRecord: "set (removeRecord k fs) \<subseteq> set fs"
  by (induction fs) auto

lemma removeRecord_absent:
  "distinct (map Path fs) \<Longrightarrow> k \<notin> Path ` set (removeRecord k fs)"
  by (induction fs) (auto dest: subsetD[OF set_removeRecord])


lemma findRecord_None: "k \<notin> Path ` set fs \<Longrightarrow> findRecord k fs = None"
  by (induction fs) auto

lemma findRecord_append:
  "findRecord k (fs @ gs) = (case findRecord k fs of None \<Rightarrow> findRecord k gs | Some r \<Rightarrow> Some r)"
  by (induction fs) auto






subsection \<open>evictOldest\<close>









subsection \<open>addToMemCache\<close>









subsection \<open>Get and Put\<close>











subsection \<open>The value a key has\<close>





lemma Get_stored: "fst (Get hc k now) = stored hc k"
proof (cases "memCache hc k")
  case None
  then show ?thesis
    by (cases "GetFileRecord (diskCache hc) k") (simp_all add: Get_def stored_def Let_def)
next
  case (Some a)
  then show ?thesis by (simp add: Get_def stored_def Let_def)
qed





subsection \<open>Construction\<close>






subsection \<open>Counting\<close>
















section \<open>Properties of the disk store's records\<close>

lemma SaveFileRecord_keeps_ignored:
  assumes "distinct (map Path (Files (data fc)))" "findRecord p (Files (data fc)) = Some r"
  shows "\<exists>r'. GetFileRecord (snd (SaveFileRecord fc p issues (Inr h) now)) p = Inr r'
            \<and> Ignored r' = Ignored r"
  using assms removeRecord_absent[of "Files (data fc)" p]
  by (simp add: SaveFileRecord_def Let_def GetFileRecord_def Files_saveUnsafe Files_updateStats
      findRecord_append findRecord_None)

text \<open>
  C3.  The claim: overwriting the record of a path keeps the path's list of dismissed
  diagnostics.  \<open>SaveFileRecord\<close> does so (previous lemma).  \<open>SaveRawRecord\<close>, the
  path by which the hybrid cache writes a re-analysis to disk, does not: on the store
  \<open>dismissedStore\<close>, whose record for \<open>a.go\<close> has \<open>Ignored = [issue-1]\<close>, it leaves
  \<open>Ignored = []\<close>, where \<open>SaveFileRecord\<close> on the same store keeps the list; and a
  \<open>Put\<close> through a hybrid cache of capacity 1, evicted by the next \<open>Put\<close>, loses the
  list in the same way.
\<close>

theorem SaveRawRecord_drops_ignored:
  "GetFileRecord dismissedStore ''a.go'' =
      Inr \<lparr>Path = ''a.go'', Hash = ''h0'', LastAnalyzed = 0,
            Issues = [zeroIssue\<lparr>ID := ''issue-1''\<rparr>], Ignored = [''issue-1'']\<rparr>
   \<and> GetFileRecord (snd (SaveRawRecord dismissedStore ''a.go''
                           \<lparr>EntryHash = ''h1'', EntryIssues = []\<rparr> 5)) ''a.go'' =
      Inr \<lparr>Path = ''a.go'', Hash = ''h1'', LastAnalyzed = 5, Issues = [], Ignored = []\<rparr>
   \<and> GetFileRecord (snd (SaveFileRecord dismissedStore ''a.go'' [] (Inr ''h1'') 5)) ''a.go'' =
      Inr \<lparr>Path = ''a.go'', Hash = ''h1'', LastAnalyzed = 5, Issues = [], Ignored = [''issue-1'']\<rparr>
   \<and> (\<exists>hc. NewHybridCache (Inr dismissedStore) 1 (2 * hours24) = Inr hc
         \<and> GetFileRecord
              (diskCache (Put (Put hc ''a.go'' \<lparr>EntryHash = ''h1'', EntryIssues = []\<rparr> (2 * hours24))
                              ''b.go'' \<lparr>EntryHash = ''h2'', EntryIssues = []\<rparr> (2 * hours24)))
              ''a.go'' =
            Inr \<lparr>Path = ''a.go'', Hash = ''h1'', LastAnalyzed = 2 * hours24, Issues = [],
                  Ignored = []\<rparr>)"
  by (simp add: dismissedStore_def freshFileCache_def GetFileRecord_def SaveRawRecord_def
      SaveFileRecord_def saveUnsafe_def updateStats_def Let_def countFixed_def
      NewHybridCache_def preloadHotData_def hours24_def Put_def addToMemCache_def
      evictOldest_def flushItem_def)

lemma findRecordPtr_value:
  "findRecord p (storeValue mem files) = map_option (recordValue mem) (findRecordPtr mem p files)"
  by (induction files) (auto simp: storeValue_def recordValue_def Let_def)

lemma findRecordPtr_in: "findRecordPtr mem p files = Some r \<Longrightarrow> r \<in> set files"
  by (induction files) (auto split: if_splits)

lemma storeValue_cong:
  assumes "\<forall>r\<in>set files. recordCell mem' r = recordCell mem r"
    and "issueArray mem' = issueArray mem" "stringArray mem' = stringArray mem"
    and "issueCell mem' = issueCell mem"
  shows "storeValue mem' files = storeValue mem files"
  using assms by (simp add: storeValue_def recordValue_def)

text \<open>
  C6, as amended.  \<open>GetFileRecord\<close> returns a new struct: the call leaves the store as
  it was, the returned record has the value of the stored one, it is not one of the
  store's records, and assigning to its fields, in any way, leaves the store unchanged.
  Its \<open>Issues\<close> and \<open>Ignored\<close> headers are those of the stored record: the arrays and
  the diagnostics they point to are shared with the store.
\<close>

theorem GetFileRecord_copies_record_only:
  assumes alloc: "\<forall>r\<in>set files. r < nextCell mem"
    and got: "GetFileRecordPtr mem files filePath = (Inr q, mem')"
  shows "storeValue mem' files = storeValue mem files
     \<and> GetFileRecord (fc\<lparr>data := (data fc)\<lparr>Files := storeValue mem files\<rparr>\<rparr>) filePath
          = Inr (recordValue mem' q)
     \<and> q \<notin> set files
     \<and> (\<forall>c. storeValue (mem'\<lparr>recordCell := (recordCell mem')(q := c)\<rparr>) files
             = storeValue mem' files)
     \<and> (\<exists>r\<in>set files. IssuesC (recordCell mem' q) = IssuesC (recordCell mem' r)
             \<and> IgnoredC (recordCell mem' q) = IgnoredC (recordCell mem' r))"
proof -
  obtain r where r: "findRecordPtr mem filePath files = Some r"
    using got by (auto simp: GetFileRecordPtr_def split: option.splits)
  have q: "q = nextCell mem"
    and mem': "mem' = mem\<lparr>recordCell := (recordCell mem)(q := recordCell mem r), nextCell := q + 1\<rparr>"
    using got r by (auto simp: GetFileRecordPtr_def Let_def)
  have rin: "r \<in> set files" using r by (rule findRecordPtr_in)
  have qn: "q \<notin> set files" using alloc q by auto
  have same: "\<forall>x\<in>set files. recordCell mem' x = recordCell mem x"
    using qn by (auto simp: mem')
  have A: "storeValue mem' files = storeValue mem files"
    by (rule storeValue_cong[OF same]) (simp_all add: mem')
  have B: "GetFileRecord (fc\<lparr>data := (data fc)\<lparr>Files := storeValue mem files\<rparr>\<rparr>) filePath
          = Inr (recordValue mem' q)"
    by (simp add: GetFileRecord_def findRecordPtr_value r recordValue_def mem')
  have C: "storeValue (mem'\<lparr>recordCell := (recordCell mem')(q := c)\<rparr>) files
             = storeValue mem' files" for c
    by (rule storeValue_cong) (use qn in auto)
  have D: "IssuesC (recordCell mem' q) = IssuesC (recordCell mem' r)
             \<and> IgnoredC (recordCell mem' q) = IgnoredC (recordCell mem' r)"
    using same rin by (simp add: mem')
  show ?thesis using A B qn C D rin by blast
qed

text \<open>
  C6 as stated fails: on the store \<open>sharedMemory\<close> the returned record lists the very
  diagnostic the store holds, and a write through that pointer changes the value of the
  store.
\<close>

theorem GetFileRecord_shares_issues:
  "fst (GetFileRecordPtr sharedMemory [0] ''a.go'') = Inr 1
   \<and> issueArray (snd (GetFileRecordPtr sharedMemory [0] ''a.go''))
        (base (IssuesC (recordCell (snd (GetFileRecordPtr sharedMemory [0] ''a.go'')) 1))) = [0]
   \<and> storeValue
        ((snd (GetFileRecordPtr sharedMemory [0] ''a.go''))
           \<lparr>issueCell := (issueCell (snd (GetFileRecordPtr sharedMemory [0] ''a.go'')))
              (0 := (issueCell (snd (GetFileRecordPtr sharedMemory [0] ''a.go'')) 0)
                      \<lparr>Message := ''changed''\<rparr>)\<rparr>) [0]
        \<noteq> storeValue (snd (GetFileRecordPtr sharedMemory [0] ''a.go'')) [0]"
  by (simp add: GetFileRecordPtr_def sharedMemory_def storeValue_def recordValue_def Let_def
      zeroIssue_def)

theorem GetFileRecord_copies_record_only_witness:
  "\<exists>q mem'. GetFileRecordPtr sharedMemory [0] ''a.go'' = (Inr q, mem')
     \<and> storeValue (mem'\<lparr>recordCell := (recordCell mem')(q := (recordCell mem' q)\<lparr>HashC := ''zz''\<rparr>)\<rparr>) [0]
          = storeValue sharedMemory [0]"
proof -
  obtain q mem' where got: "GetFileRecordPtr sharedMemory [0] ''a.go'' = (Inr q, mem')"
    by (simp add: GetFileRecordPtr_def sharedMemory_def Let_def)
  have alloc: "\<forall>r\<in>set [0]. r < nextCell sharedMemory" by (simp add: sharedMemory_def)
  from GetFileRecord_copies_record_only[OF alloc got]
  have "storeValue (mem'\<lparr>recordCell := (recordCell mem')(q := (recordCell mem' q)\<lparr>HashC := ''zz''\<rparr>)\<rparr>) [0]
          = storeValue sharedMemory [0]"
    by simp
  then show ?thesis using got by blast
qed

section \<open>Properties of the orchestrator\<close>

subsection \<open>cloneIssues\<close>

lemma cloneLoop_filter: "cloneLoop xs = filter (\<lambda>p. p \<noteq> None) xs"
  by (induction xs rule: cloneLoop.induct) auto

lemma cloneIssues_elems: "elems (cloneIssues s) = filter (\<lambda>p. p \<noteq> None) (elems s)"
  by (simp add: cloneIssues_def cloneLoop_filter)

lemma cloneIssues_Slice: "cloneIssues s = Slice (filter (\<lambda>p. p \<noteq> None) (elems s))"
  by (simp add: cloneIssues_def cloneLoop_filter)

lemma cloneIssues_idem: "cloneIssues (cloneIssues s) = cloneIssues s"
  by (simp add: cloneIssues_Slice)

lemma map_Some_pointees:
  "map Some (List.map_filter (\<lambda>p. p) xs) = filter (\<lambda>p. p \<noteq> None) xs"
  by (induction xs) (auto simp: List.map_filter_simps split: option.splits)

lemma clone_roundtrip: "cloneIssues (pointers (pointees (cloneIssues s))) = cloneIssues s"
  by (simp add: cloneIssues_Slice pointers_def pointees_def map_Some_pointees)

lemma cloneIssues_no_nil:
  "\<forall>x\<in>set xs. x \<noteq> None \<Longrightarrow> cloneIssues (Slice xs) = Slice xs"
  by (simp add: cloneIssues_Slice filter_id_conv)

subsection \<open>Reading back what was cached\<close>

lemma Get_after_Put: "fst (Get (Put hc k e now) k now') = Some e"
  by (auto simp: Get_def Put_def addToMemCache_def Let_def split: option.splits)

lemma Get_twice:
  assumes "fst (Get hc k now) = Some e"
  shows "fst (Get (snd (Get hc k now)) k now') = Some e"
proof (cases "memCache hc k")
  case (Some a)
  then show ?thesis using assms by (simp add: Get_def Let_def)
next
  case None
  then obtain r where r: "GetFileRecord (diskCache hc) k = Inr r"
    using assms by (cases "GetFileRecord (diskCache hc) k") (simp_all add: Get_def)
  then show ?thesis using assms None
    by (simp add: Get_def Let_def addToMemCache_def)
qed

subsection \<open>What the cache serves\<close>

lemma runAnalyzers_eq:
  "runAnalyzers rs f fs en names (is, cs) =
     (is @ concat (map (\<lambda>n. elems (rs n f fs)) (filter (isEnabled en) names)),
      cs @ filter (isEnabled en) names)"
  by (induction names arbitrary: "is" cs) auto

lemma checkCache_served:
  "fst (checkCache g p f now) =
     (case served g p now of
        Some (h, c) \<Rightarrow> if h = computeFileHash f then (c, True) else (NilSlice, False)
      | None \<Rightarrow> (NilSlice, False))"
proof (cases "globalHybridCache g")
  case None
  then show ?thesis
    by (cases "results (globalCache g) p") (simp_all add: checkCache_def served_def Let_def)
next
  case (Some hc)
  obtain eo hc' where G: "Get hc p now = (eo, hc')" by (cases "Get hc p now")
  show ?thesis using Some G
    by (cases eo) (simp_all add: checkCache_def served_def Let_def)
qed

lemma checkCache_calls: "analyzerCalls (snd (checkCache g p f now)) = analyzerCalls g"
proof (cases "globalHybridCache g")
  case None
  then show ?thesis
    by (cases "results (globalCache g) p") (simp_all add: checkCache_def Let_def)
next
  case (Some hc)
  obtain eo hc' where G: "Get hc p now = (eo, hc')" by (cases "Get hc p now")
  show ?thesis using Some G
    by (cases eo) (simp_all add: checkCache_def Let_def)
qed

lemma updateCache_calls: "analyzerCalls (updateCache g p f is now) = analyzerCalls g"
  by (cases "globalHybridCache g") (simp_all add: updateCache_def Let_def)

lemma Analyze_hit:
  assumes "served g p now = Some (computeFileHash f, c)"
  shows "fst (Analyze rs g p (Some f) fs en now) = c
       \<and> analyzerCalls (snd (Analyze rs g p (Some f) fs en now)) = analyzerCalls g"
proof -
  obtain g1 where cc: "checkCache g p f now = ((c, True), g1)"
    using checkCache_served[of g p f now] assms by (cases "checkCache g p f now") auto
  have "analyzerCalls g1 = analyzerCalls g" using checkCache_calls[of g p f now] cc by simp
  then show ?thesis by (simp add: Analyze_def cc)
qed

lemma Analyze_miss:
  assumes "case served g p now of None \<Rightarrow> True | Some (h, c) \<Rightarrow> h \<noteq> computeFileHash f"
  shows "fst (Analyze rs g p (Some f) fs en now) = Slice (ruleOutput rs f fs en)
       \<and> analyzerCalls (snd (Analyze rs g p (Some f) fs en now))
           = analyzerCalls g @ filter (isEnabled en) allAnalyzers"
proof -
  obtain g1 where cc: "checkCache g p f now = ((NilSlice, False), g1)"
    using checkCache_served[of g p f now] assms
    by (cases "checkCache g p f now") (auto split: option.splits)
  have "analyzerCalls g1 = analyzerCalls g" using checkCache_calls[of g p f now] cc by simp
  then show ?thesis
    by (simp add: Analyze_def cc runAnalyzers_eq updateCache_calls ruleOutput_def)
qed

lemma hybrid_kept:
  "(globalHybridCache (snd (Analyze rs g p tree fs en now)) = None) = (globalHybridCache g = None)"
proof (cases tree)
  case None
  then show ?thesis by (simp add: Analyze_def)
next
  case (Some f)
  have cc: "(globalHybridCache (snd (checkCache g p f now)) = None) = (globalHybridCache g = None)"
  proof (cases "globalHybridCache g")
    case None
    then show ?thesis
      by (cases "results (globalCache g) p") (simp_all add: checkCache_def Let_def)
  next
    case (Some hc)
    obtain eo hc' where G: "Get hc p now = (eo, hc')" by (cases "Get hc p now")
    show ?thesis using Some G by (cases eo) (simp_all add: checkCache_def Let_def)
  qed
  have uc: "(globalHybridCache (updateCache g' p f is now) = None) = (globalHybridCache g' = None)"
    for g' "is"
    by (cases "globalHybridCache g'") (simp_all add: updateCache_def Let_def)
  obtain c b g1 where ck: "checkCache g p f now = ((c, b), g1)"
    by (cases "checkCache g p f now") auto
  show ?thesis using cc ck uc Some
    by (cases b) (simp_all add: Analyze_def runAnalyzers_eq)
qed

lemma served_after_Analyze:
  assumes first: "Analyze rs g p (Some T) fs en t1 = (r1, g1)"
  shows "case served g1 p t2 of
           None \<Rightarrow> globalHybridCache g = None \<and> \<not> legacyFresh g1 p t2
         | Some (h, c) \<Rightarrow> h = computeFileHash T \<and> cloneIssues c = cloneIssues r1
              \<and> ((\<forall>x\<in>set (elems r1). x \<noteq> None) \<longrightarrow> c = r1)"
proof (cases "globalHybridCache g")
  case (Some hc)
  obtain eo hc' where G: "Get hc p t1 = (eo, hc')" by (cases "Get hc p t1")
  show ?thesis
  proof (cases "\<exists>e. eo = Some e \<and> EntryHash e = computeFileHash T")
    case True
    then obtain e where e: "eo = Some e" "EntryHash e = computeFileHash T" by auto
    have r1: "r1 = cloneIssues (pointers (EntryIssues e))"
      and g1: "g1 = g\<lparr>globalHybridCache := Some hc'\<rparr>"
      using first Some G e by (simp_all add: Analyze_def checkCache_def Let_def)
    have "fst (Get hc' p t2) = Some e"
      using Get_twice[of hc p t1 e t2] G e by simp
    then show ?thesis
      by (simp add: served_def g1 r1 e cloneIssues_idem)
  next
    case False
    let ?is = "ruleOutput rs T fs en"
    have ck: "checkCache g p T t1 = ((NilSlice, False), g\<lparr>globalHybridCache := Some hc'\<rparr>)"
      using Some G False by (cases eo) (auto simp: checkCache_def Let_def)
    have r1: "r1 = Slice ?is"
      using first ck by (simp add: Analyze_def runAnalyzers_eq ruleOutput_def)
    have "\<exists>hc1. globalHybridCache g1 =
        Some (Put hc1 p \<lparr>EntryHash = computeFileHash T,
                           EntryIssues = pointees (cloneIssues (Slice ?is))\<rparr> t1)"
      using first ck
      by (auto simp: Analyze_def runAnalyzers_eq ruleOutput_def updateCache_def Let_def)
    then obtain hc1 where g1: "globalHybridCache g1 =
        Some (Put hc1 p \<lparr>EntryHash = computeFileHash T,
                           EntryIssues = pointees (cloneIssues (Slice ?is))\<rparr> t1)" by blast
    show ?thesis
      by (simp add: served_def g1 Get_after_Put clone_roundtrip r1 cloneIssues_idem
          cloneIssues_no_nil)
  qed
next
  case None
  show ?thesis
  proof (cases "\<exists>e. results (globalCache g) p = Some e \<and> CHash e = computeFileHash T
                      \<and> t1 - Timestamp e < maxAge (globalCache g)")
    case True
    then obtain e where e: "results (globalCache g) p = Some e" "CHash e = computeFileHash T"
      "t1 - Timestamp e < maxAge (globalCache g)" by auto
    have "r1 = CIssues e" "g1 = g"
      using first None e by (simp_all add: Analyze_def checkCache_def Let_def)
    then show ?thesis using None e
      by (simp add: served_def legacyFresh_def)
  next
    case False
    let ?is = "ruleOutput rs T fs en"
    have ck: "checkCache g p T t1 = ((NilSlice, False), g)"
      using None False
      by (cases "results (globalCache g) p") (auto simp: checkCache_def Let_def)
    have r1: "r1 = Slice ?is"
      using first ck by (simp add: Analyze_def runAnalyzers_eq ruleOutput_def)
    have h1: "globalHybridCache g1 = None"
      using hybrid_kept[of rs g p "Some T" fs en t1] first None by simp
    have res: "results (globalCache g1) p =
        (if t1 - t1 > maxAge (globalCache g) then None
         else Some \<lparr>CHash = computeFileHash T, CIssues = cloneIssues (Slice ?is), Timestamp = t1\<rparr>)"
      and ma: "maxAge (globalCache g1) = maxAge (globalCache g)"
      using first ck None
      by (auto simp: Analyze_def runAnalyzers_eq ruleOutput_def updateCache_def Let_def
          cleanCache_def)
    show ?thesis
      using h1 res ma None
      by (auto simp: served_def legacyFresh_def r1 cloneIssues_idem cloneIssues_no_nil)
  qed
qed

subsection \<open>The digit stream\<close>

lemma fnvWrite_append: "fnvWrite (fnvWrite h a) b = fnvWrite h (a @ b)"
  by (simp add: fnvWrite_def)

lemma fnvWrite_Nil: "fnvWrite h [] = h"
  by (simp add: fnvWrite_def)

lemma inspect_children:
  assumes "\<And>n h c. n \<in> set ns \<Longrightarrow> inspectNode n (h, c) = (fnvWrite h (posDigits n), c + countNodes n)"
  shows "fold inspectNode ns (h, c) =
           (fnvWrite h (concat (map posDigits ns)), c + sum_list (map countNodes ns))"
  using assms
proof (induction ns arbitrary: h c)
  case Nil
  then show ?case by (simp add: fnvWrite_Nil)
next
  case (Cons n ns)
  then show ?case by (simp add: fnvWrite_append)
qed

lemma inspectNode_stream:
  "inspectNode n (h, c) = (fnvWrite h (posDigits n), c + countNodes n)"
proof (induction n arbitrary: h c)
  case (Node pos children)
  show ?case
    using inspect_children[of children, OF Node.IH]
    by (simp add: fnvWrite_append fnvWrite_Nil)
qed

lemma computeFileHash_stream:
  "computeFileHash f = FormatUint36 (fnvWrite offset64 (hashInput f))"
  by (simp add: computeFileHash_def inspectNode_stream fnvWrite_append hashInput_def)

subsection \<open>When the fingerprint must change\<close>

lemma prime64_inverse: "prime64 * 14886173955864302971 = 1"
  by (simp add: prime64_def)

lemma mult_prime64_inj: "a * prime64 = b * prime64 \<Longrightarrow> a = b"
proof -
  assume e: "a * prime64 = b * prime64"
  have "a = a * (prime64 * 14886173955864302971)" by (simp add: prime64_inverse)
  also have "\<dots> = (a * prime64) * 14886173955864302971" by (simp only: mult.assoc)
  also have "\<dots> = (b * prime64) * 14886173955864302971" by (simp only: e)
  also have "\<dots> = b * (prime64 * 14886173955864302971)" by (simp only: mult.assoc)
  also have "\<dots> = b" by (simp add: prime64_inverse)
  finally show ?thesis .
qed

lemma xor_right_inj: "(h :: 64 word) XOR w = h' XOR w \<Longrightarrow> h = h'"
proof -
  assume e: "h XOR w = h' XOR w"
  have "h = (h XOR w) XOR w" by (simp add: xor.assoc)
  also have "\<dots> = (h' XOR w) XOR w" by (simp only: e)
  also have "\<dots> = h'" by (simp add: xor.assoc)
  finally show ?thesis .
qed

lemma xor_left_inj: "(h :: 64 word) XOR w = h XOR w' \<Longrightarrow> w = w'"
proof -
  assume e: "h XOR w = h XOR w'"
  have "w = h XOR (h XOR w)" by (simp add: xor.assoc[symmetric])
  also have "\<dots> = h XOR (h XOR w')" by (simp only: e)
  also have "\<dots> = w'" by (simp add: xor.assoc[symmetric])
  finally show ?thesis .
qed

lemma fnvWrite_Cons: "fnvWrite h (c # cs) = fnvWrite ((h XOR of_nat (of_char c)) * prime64) cs"
  by (simp add: fnvWrite_def)

lemma fnvWrite_inj: "fnvWrite h bs = fnvWrite h' bs \<Longrightarrow> h = h'"
proof (induction bs arbitrary: h h')
  case Nil
  then show ?case by (simp add: fnvWrite_def)
next
  case (Cons c cs)
  have "(h XOR of_nat (of_char c)) * prime64 = (h' XOR of_nat (of_char c)) * prime64"
    using Cons.IH Cons.prems by (simp only: fnvWrite_Cons)
  then have "h XOR of_nat (of_char c) = h' XOR of_nat (of_char c)"
    by (rule mult_prime64_inj)
  then show ?case by (rule xor_right_inj)
qed

lemma of_char_small: "(of_char c :: nat) < 18446744073709551616"
  using nat_of_char_less_256[of c] by linarith

lemma unat_of_nat64: "unat (of_nat n :: 64 word) = n mod 18446744073709551616"
  by (simp add: unat_of_nat)

lemma unat_byte: "unat (of_nat (of_char c) :: 64 word) = of_char c"
  unfolding unat_of_nat64 using of_char_small by (rule mod_less)

lemma byte_inj: "(of_nat (of_char a) :: 64 word) = of_nat (of_char b) \<Longrightarrow> a = b"
proof -
  assume e: "(of_nat (of_char a) :: 64 word) = of_nat (of_char b)"
  have "unat (of_nat (of_char a) :: 64 word) = unat (of_nat (of_char b) :: 64 word)"
    by (simp only: e)
  then have "(of_char a :: nat) = of_char b" by (simp only: unat_byte)
  then show ?thesis by (rule of_char_eqI)
qed

lemma fnv_one_byte: "a \<noteq> b \<Longrightarrow> fnvWrite h (xs @ a # ys) \<noteq> fnvWrite h (xs @ b # ys)"
proof
  assume ne: "a \<noteq> b" and e: "fnvWrite h (xs @ a # ys) = fnvWrite h (xs @ b # ys)"
  let ?g = "fnvWrite h xs"
  have "fnvWrite (fnvWrite ?g [a]) ys = fnvWrite (fnvWrite ?g [b]) ys"
    using e by (simp add: fnvWrite_def)
  then have "fnvWrite ?g [a] = fnvWrite ?g [b]" by (rule fnvWrite_inj)
  then have "(?g XOR of_nat (of_char a)) * prime64 = (?g XOR of_nat (of_char b)) * prime64"
    by (simp add: fnvWrite_def)
  then have "?g XOR of_nat (of_char a) = ?g XOR of_nat (of_char b)"
    by (rule mult_prime64_inj)
  then have "(of_nat (of_char a) :: 64 word) = of_nat (of_char b)"
    by (rule xor_left_inj)
  then show False using ne byte_inj by blast
qed

lemma indexOf_nth: "distinct xs \<Longrightarrow> d < length xs \<Longrightarrow> indexOf (xs ! d) xs = d"
proof (induction xs arbitrary: d)
  case Nil
  then show ?case by simp
next
  case (Cons x xs)
  then show ?case by (cases d) auto
qed

lemma distinct_digits: "distinct digits" and length_digits: "length digits = 36"
  by (simp_all add: digits_def)

lemma digitVal: "d < 36 \<Longrightarrow> indexOf (digitChar d) digits = d"
  by (simp add: digitChar_def indexOf_nth distinct_digits length_digits)

lemma valueOf_formatNat: "valueOf (formatNat 36 n) = n"
proof (induction "36::nat" n rule: formatNat.induct)
  case (1 n)
  show ?case
  proof (cases "n < 36")
    case True
    then show ?thesis by (simp add: valueOf_def digitVal)
  next
    case False
    then have ih: "valueOf (formatNat 36 (n div 36)) = n div 36" using "1" by simp
    have "n mod 36 < 36" by simp
    then have dv: "indexOf (digitChar (n mod 36)) digits = n mod 36" by (rule digitVal)
    have "formatNat 36 n = formatNat 36 (n div 36) @ [digitChar (n mod 36)]"
      using False by simp
    then have "valueOf (formatNat 36 n) = valueOf (formatNat 36 (n div 36)) * 36 + n mod 36"
      by (simp add: valueOf_def dv)
    then show ?thesis using ih by simp
  qed
qed

lemma FormatUint36_inj: "FormatUint36 x = FormatUint36 y \<Longrightarrow> x = y"
proof -
  assume "FormatUint36 x = FormatUint36 y"
  then have "valueOf (formatNat 36 (unat x)) = valueOf (formatNat 36 (unat y))"
    by (simp add: FormatUint36_def)
  then have "unat x = unat y" by (simp only: valueOf_formatNat)
  then show ?thesis by (rule word_unat_eq_iff[THEN iffD2])
qed

lemma one_byte_changes_hash:
  assumes "hashInput T = xs @ a # ys" "hashInput U = xs @ b # ys" "a \<noteq> b"
  shows "computeFileHash U \<noteq> computeFileHash T"
proof
  assume "computeFileHash U = computeFileHash T"
  then have "fnvWrite offset64 (xs @ b # ys) = fnvWrite offset64 (xs @ a # ys)"
    using assms(1,2) by (simp only: computeFileHash_stream) (rule FormatUint36_inj)
  then show False using fnv_one_byte[OF assms(3), of offset64 xs ys] by simp
qed

subsection \<open>Two calls of Analyze\<close>


lemma served_start: "served startGlobals p now = None"
  by (simp add: served_def startGlobals_def initGlobals_def NewHybridCache_def
      preloadHotData_def freshFileCache_def defaultMaxMemoryItems_def Get_def GetFileRecord_def)



lemma lineRule_output:
  "ruleOutput lineRule f fs None = [Some (zeroIssue\<lparr>Line := rootPos (Root f)\<rparr>)]"
  by (simp add: ruleOutput_def isEnabled_def allAnalyzers_def lineRule_def)

text \<open>
  C7.  With an absent (nil) parsed tree, \<open>Analyze\<close> returns the empty, non-nil list,
  for every file name, file set, enabled set and state; it touches no cache and runs
  no rule (the state is returned as it was).  The model of \<open>Analyze\<close> has no failure
  value: this branch returns before any call that could panic.
\<close>

theorem Analyze_nil_tree:
  "Analyze rs g filename None fs enabledAnalyzers now = (Slice [], g)
   \<and> fst (Analyze rs g filename None fs enabledAnalyzers now) \<noteq> NilSlice
   \<and> elems (fst (Analyze rs g filename None fs enabledAnalyzers now)) = []"
  by (simp add: Analyze_def)




lemma hash_treeOne: "computeFileHash treeOne = ''4d3he1bgaclz''"
  by (simp add: treeOne_def computeFileHash_stream hashInput_def AppendInt_def digitChar_def
      digits_def fnvWrite_def offset64_def prime64_def FormatUint36_def)

lemma hash_treeTwo: "computeFileHash treeTwo = ''4dwesboirprg''"
  by (simp add: treeTwo_def computeFileHash_stream hashInput_def AppendInt_def digitChar_def
      digits_def fnvWrite_def offset64_def prime64_def FormatUint36_def)

lemma same_stream_same_hash: "hashInput U = hashInput T \<Longrightarrow> computeFileHash U = computeFileHash T"
  by (simp add: computeFileHash_stream)

lemma hashInput_treeA: "hashInput treeA = ''1111123''"
  by (simp add: hashInput_def treeA_def AppendInt_def digitChar_def digits_def)

lemma hashInput_treeB: "hashInput treeB = ''1111123''"
  by (simp add: hashInput_def treeB_def AppendInt_def digitChar_def digits_def)

lemma hash_treeB: "computeFileHash treeB = computeFileHash treeA"
  by (rule same_stream_same_hash) (simp only: hashInput_treeA hashInput_treeB)

text \<open>
  C2, as amended.  After \<open>Analyze\<close> on a tree \<open>T\<close>, a call on the same path with a tree
  \<open>T'\<close> whose fingerprint differs from that of \<open>T\<close> does not use what was cached for
  \<open>T\<close>: it runs the enabled rules on \<open>T'\<close> and returns their diagnostics.  The
  fingerprint depends only on the bytes hashed, the digits of the positions followed by
  the digits of the node count: a tree \<open>U\<close> with the same bytes as \<open>T\<close> has the
  fingerprint of \<open>T\<close>, whatever its positions are; a tree whose bytes differ from those
  of \<open>T\<close> in exactly one place (one digit of a position or of the node count) has a
  different fingerprint.
\<close>

theorem changed_fingerprint_not_reused:
  assumes first: "Analyze rs g p (Some T) fs en t1 = (r1, g1)"
    and changed: "computeFileHash T' \<noteq> computeFileHash T"
  shows "fst (Analyze rs g1 p (Some T') fs' en' t2) = Slice (ruleOutput rs T' fs' en')
     \<and> analyzerCalls (snd (Analyze rs g1 p (Some T') fs' en' t2))
          = analyzerCalls g1 @ filter (isEnabled en') allAnalyzers
     \<and> (\<forall>U. hashInput U = hashInput T \<longrightarrow> computeFileHash U = computeFileHash T)
     \<and> (\<forall>U xs a b ys. hashInput T = xs @ a # ys \<and> hashInput U = xs @ b # ys \<and> a \<noteq> b
            \<longrightarrow> computeFileHash U \<noteq> computeFileHash T)"
proof -
  have "case served g1 p t2 of None \<Rightarrow> True | Some (h, c) \<Rightarrow> h \<noteq> computeFileHash T'"
    using served_after_Analyze[OF first, of t2] changed
    by (cases "served g1 p t2") auto
  from Analyze_miss[OF this, of rs fs' en']
  have A1: "fst (Analyze rs g1 p (Some T') fs' en' t2) = Slice (ruleOutput rs T' fs' en')"
    and A2: "analyzerCalls (snd (Analyze rs g1 p (Some T') fs' en' t2))
          = analyzerCalls g1 @ filter (isEnabled en') allAnalyzers"
    by blast+
  have B: "\<forall>U. hashInput U = hashInput T \<longrightarrow> computeFileHash U = computeFileHash T"
    using same_stream_same_hash by blast
  have C: "\<forall>U xs a b ys. hashInput T = xs @ a # ys \<and> hashInput U = xs @ b # ys \<and> a \<noteq> b
            \<longrightarrow> computeFileHash U \<noteq> computeFileHash T"
    using one_byte_changes_hash by blast
  show ?thesis by (rule conjI[OF A1 conjI[OF A2 conjI[OF B C]]])
qed

theorem changed_fingerprint_not_reused_witness:
  "computeFileHash treeTwo \<noteq> computeFileHash treeOne
   \<and> fst (Analyze lineRule (snd (Analyze lineRule startGlobals ''a.go'' (Some treeOne) None None 0))
             ''a.go'' (Some treeTwo) None None 1)
        = Slice [Some (zeroIssue\<lparr>Line := 2\<rparr>)]"
proof -
  let ?A1 = "Analyze lineRule startGlobals ''a.go'' (Some treeOne) None None 0"
  have ne: "computeFileHash treeTwo \<noteq> computeFileHash treeOne"
    by (simp add: hash_treeOne hash_treeTwo)
  have f: "?A1 = (fst ?A1, snd ?A1)" by simp
  have out: "ruleOutput lineRule treeTwo None None = [Some (zeroIssue\<lparr>Line := 2\<rparr>)]"
    by (simp add: lineRule_output treeTwo_def)
  from changed_fingerprint_not_reused[OF f ne, of None None 1, THEN conjunct1]
  show ?thesis using ne by (simp add: out)
qed

text \<open>
  C2 as stated fails: \<open>treeB\<close> is \<open>treeA\<close> with positions 1, 11, 112 changed to
  11, 11, 12.  Both write the digits 111112 and count three nodes, so the fingerprints
  are equal, and \<open>Analyze\<close> on \<open>treeB\<close> returns the diagnostics cached for \<open>treeA\<close>
  (line 1, where the rule on \<open>treeB\<close> reports line 11) without running a rule.
\<close>

theorem same_fingerprint_after_position_change:
  "Root treeB \<noteq> Root treeA
   \<and> computeFileHash treeB = computeFileHash treeA
   \<and> ruleOutput lineRule treeB None None = [Some (zeroIssue\<lparr>Line := 11\<rparr>)]
   \<and> fst (Analyze lineRule (snd (Analyze lineRule startGlobals ''a.go'' (Some treeA) None None 0))
             ''a.go'' (Some treeB) None None 1)
        = Slice [Some (zeroIssue\<lparr>Line := 1\<rparr>)]
   \<and> analyzerCalls (snd (Analyze lineRule
             (snd (Analyze lineRule startGlobals ''a.go'' (Some treeA) None None 0))
             ''a.go'' (Some treeB) None None 1))
        = analyzerCalls (snd (Analyze lineRule startGlobals ''a.go'' (Some treeA) None None 0))"
proof -
  let ?A1 = "Analyze lineRule startGlobals ''a.go'' (Some treeA) None None 0"
  have ne: "Root treeB \<noteq> Root treeA" by (simp add: treeA_def treeB_def)
  have outB: "ruleOutput lineRule treeB None None = [Some (zeroIssue\<lparr>Line := 11\<rparr>)]"
    by (simp add: lineRule_output treeB_def)
  have outA: "ruleOutput lineRule treeA None None = [Some (zeroIssue\<lparr>Line := 1\<rparr>)]"
    by (simp add: lineRule_output treeA_def)
  have r1: "fst ?A1 = Slice [Some (zeroIssue\<lparr>Line := 1\<rparr>)]"
    using Analyze_miss[where g = startGlobals and p = "''a.go''" and now = 0 and f = treeA
        and rs = lineRule and fs = None and en = None]
    by (simp add: served_start outA)
  have hy: "globalHybridCache startGlobals \<noteq> None"
    by (simp add: startGlobals_def initGlobals_def NewHybridCache_def)
  have f: "?A1 = (fst ?A1, snd ?A1)" by simp
  from served_after_Analyze[OF f, of 1] hy
  have sv: "served (snd ?A1) ''a.go'' 1 = Some (computeFileHash treeB, fst ?A1)"
    by (cases "served (snd ?A1) ''a.go'' 1") (auto simp: r1 hash_treeB)
  from Analyze_hit[OF sv, of lineRule None None]
  show ?thesis using ne outB r1 hash_treeB by simp
qed

end
